theory Spec2Isabelle
  imports Main
begin

section \<open>csv2mysql: schema inference and loading of a CSV file\<close>

text \<open>
  A shallow embedding of \<^verbatim>\<open>SQL_Scripts/csv2mysql/csv2mysql.py\<close>. A CSV file is the
  list of records that \<^verbatim>\<open>csv.reader\<close> yields for it (each record a list of strings).
  Strings are lists of 8-bit characters; the standard-library functions the script calls
  (\<^verbatim>\<open>int\<close>, \<^verbatim>\<open>float\<close>, \<^verbatim>\<open>time.strptime\<close>, \<^verbatim>\<open>str.lower\<close>,
  \<^verbatim>\<open>re.sub\<close>, \<^verbatim>\<open>str.strip\<close>) are modelled on ASCII text, where characters above
  127 are neither letters, digits nor white space.
\<close>

subsection \<open>Characters\<close>

definition is_digit :: "char \<Rightarrow> bool" where
  "is_digit c \<longleftrightarrow> c \<in> set ''0123456789''"

definition digit_val :: "char \<Rightarrow> nat" where
  "digit_val c = of_char c - 48"

text \<open>White space of \<^verbatim>\<open>str.isspace\<close> in the ASCII range: codes 9 to 13, 28 to 32.\<close>

definition is_space :: "char \<Rightarrow> bool" where
  "is_space c \<longleftrightarrow> (of_char c :: nat) \<in> {9, 10, 11, 12, 13, 28, 29, 30, 31, 32}"

definition lower_char :: "char \<Rightarrow> char" where
  "lower_char c =
     (case map_of (zip ''ABCDEFGHIJKLMNOPQRSTUVWXYZ'' ''abcdefghijklmnopqrstuvwxyz'') c of
        Some d \<Rightarrow> d
      | None \<Rightarrow> c)"

definition lower :: "string \<Rightarrow> string" where
  "lower s = map lower_char s"

text \<open>The class \<^verbatim>\<open>\w\<close>: letters, digits and the underscore.\<close>

definition is_word :: "char \<Rightarrow> bool" where
  "is_word c \<longleftrightarrow>
     c \<in> set ''abcdefghijklmnopqrstuvwxyzABCDEFGHIJKLMNOPQRSTUVWXYZ0123456789_''"

definition strip_chars :: "(char \<Rightarrow> bool) \<Rightarrow> string \<Rightarrow> string" where
  "strip_chars p s = rev (dropWhile p (rev (dropWhile p s)))"

subsection \<open>The parsers of the standard library\<close>

text \<open>
  \<^verbatim>\<open>digit (["_"] digit)*\<close>: the digits of a numeric literal, single underscores allowed
  between digits. \<open>digit_run\<close> consumes the part after the first digit and returns what
  is left of the string.
\<close>

fun digit_run :: "string \<Rightarrow> string" where
  "digit_run [] = []"
| "digit_run [c] = (if is_digit c then [] else [c])"
| "digit_run (c # d # cs) =
     (if is_digit c then digit_run (d # cs)
      else if c = CHR ''_'' \<and> is_digit d then digit_run cs
      else c # d # cs)"

definition digitpart :: "string \<Rightarrow> string option" where
  "digitpart s = (case s of [] \<Rightarrow> None
                  | c # cs \<Rightarrow> if is_digit c then Some (digit_run cs) else None)"

definition digits_value :: "string \<Rightarrow> nat" where
  "digits_value s = foldl (\<lambda>acc c. acc * 10 + digit_val c) 0 (filter is_digit s)"

definition split_sign :: "string \<Rightarrow> bool \<times> string" where
  "split_sign s = (case s of [] \<Rightarrow> (False, [])
                   | c # cs \<Rightarrow> if c = CHR ''-'' then (True, cs)
                              else if c = CHR ''+'' then (False, cs)
                              else (False, c # cs))"

text \<open>
  \<^verbatim>\<open>int(s)\<close> on a string: surrounding white space is ignored, then an optional sign and
  a run of decimal digits. \<open>None\<close> is the \<^verbatim>\<open>ValueError\<close>. The interpreter's limit on
  the number of digits, which newer versions add, is not modelled.
\<close>

definition py_int :: "string \<Rightarrow> int option" where
  "py_int s =
     (let (neg, body) = split_sign (strip_chars is_space s) in
      if digitpart body = Some []
      then Some (if neg then - int (digits_value body) else int (digits_value body))
      else None)"

text \<open>
  \<^verbatim>\<open>float(s)\<close>: white space ignored, optional sign, then \<^verbatim>\<open>inf\<close>, \<^verbatim>\<open>infinity\<close>
  or \<^verbatim>\<open>nan\<close> in any letter case, or a decimal number with optional fraction and exponent.
  The script only uses whether the conversion succeeds, so the model returns that.
\<close>

definition float_exponent :: "string \<Rightarrow> bool" where
  "float_exponent s =
     (case s of [] \<Rightarrow> True
      | c # cs \<Rightarrow> (c = CHR ''e'' \<or> c = CHR ''E'') \<and> digitpart (snd (split_sign cs)) = Some [])"

definition float_number :: "string \<Rightarrow> bool" where
  "float_number s =
     (case s of [] \<Rightarrow> False
      | c # cs \<Rightarrow>
          if c = CHR ''.'' then (case digitpart cs of None \<Rightarrow> False | Some r \<Rightarrow> float_exponent r)
          else (case digitpart s of None \<Rightarrow> False
                | Some r \<Rightarrow>
                    (case r of [] \<Rightarrow> True
                     | p # q \<Rightarrow>
                         if p = CHR ''.''
                         then (case digitpart q of None \<Rightarrow> float_exponent q
                               | Some r' \<Rightarrow> float_exponent r')
                         else float_exponent r)))"

definition py_float :: "string \<Rightarrow> bool" where
  "py_float s =
     (let body = snd (split_sign (strip_chars is_space s)) in
      lower body \<in> {''inf'', ''infinity'', ''nan''} \<or> float_number body)"

subsection \<open>\<^verbatim>\<open>time.strptime\<close>\<close>

text \<open>
  \<^verbatim>\<open>time.strptime\<close> turns the format into a regular expression, matches it against
  the start of the string with a backtracking matcher, insists that the match found
  consumes the whole string, and then builds the date, which fails when the day does not
  exist. Each element of the expression is modelled as the list of its possible matches
  (value read, rest of the string) in the order in which the matcher tries them; the
  match found is the first of the list for the whole expression.
\<close>

datatype re_item = Dir char | Ws | Lit char

function compile_format :: "string \<Rightarrow> re_item list" where
  "compile_format [] = []"
| "compile_format (c # cs) =
     (if c = CHR ''%'' then (case cs of [] \<Rightarrow> [Lit c] | d # r \<Rightarrow> Dir d # compile_format r)
      else if is_space c then Ws # compile_format (dropWhile is_space cs)
      else Lit c # compile_format cs)"
  by pat_completeness auto
termination
  by (relation "measure length") (auto simp: less_Suc_eq_le length_dropWhile_le)

definition one_of :: "(char \<Rightarrow> bool) \<Rightarrow> string \<Rightarrow> (nat \<times> string) list" where
  "one_of p s = (case s of a # r \<Rightarrow> if p a then [(digit_val a, r)] else [] | _ \<Rightarrow> [])"

definition two_of :: "(char \<Rightarrow> bool) \<Rightarrow> (char \<Rightarrow> bool) \<Rightarrow> string \<Rightarrow> (nat \<times> string) list" where
  "two_of p q s =
     (case s of a # b # r \<Rightarrow> if p a \<and> q b then [(digit_val a * 10 + digit_val b, r)] else []
      | _ \<Rightarrow> [])"

definition in_chars :: "string \<Rightarrow> char \<Rightarrow> bool" where
  "in_chars cs c \<longleftrightarrow> c \<in> set cs"

text \<open>\<^verbatim>\<open>[0-9]{1,6}\<close>, longest match first.\<close>

definition fraction_digits :: "string \<Rightarrow> (nat \<times> string) list" where
  "fraction_digits s =
     (let n = min 6 (length (takeWhile is_digit s)) in
      map (\<lambda>k. (digits_value (take k s), drop k s)) (rev [1..<Suc n]))"

text \<open>\<^verbatim>\<open>\s+\<close>, longest match first.\<close>

definition ws_run :: "string \<Rightarrow> string list" where
  "ws_run s = map (\<lambda>k. drop k s) (rev [1..<Suc (length (takeWhile is_space s))])"

definition directive :: "char \<Rightarrow> string \<Rightarrow> (nat \<times> string) list" where
  "directive d s =
     (if d = CHR ''Y'' then
        (case s of a # b # c # e # r \<Rightarrow>
           if is_digit a \<and> is_digit b \<and> is_digit c \<and> is_digit e
           then [(digits_value [a, b, c, e], r)] else []
         | _ \<Rightarrow> [])
      else if d = CHR ''m'' then
        two_of (in_chars ''1'') (in_chars ''012'') s @ two_of (in_chars ''0'') (in_chars ''123456789'') s
        @ one_of (in_chars ''123456789'') s
      else if d = CHR ''d'' then
        two_of (in_chars ''3'') (in_chars ''01'') s @ two_of (in_chars ''12'') is_digit s
        @ two_of (in_chars ''0'') (in_chars ''123456789'') s @ one_of (in_chars ''123456789'') s
        @ (case s of a # r \<Rightarrow> if a = CHR '' '' then one_of (in_chars ''123456789'') r else []
           | _ \<Rightarrow> [])
      else if d = CHR ''H'' then
        two_of (in_chars ''2'') (in_chars ''0123'') s @ two_of (in_chars ''01'') is_digit s
        @ one_of is_digit s
      else if d = CHR ''M'' then
        two_of (in_chars ''012345'') is_digit s @ one_of is_digit s
      else if d = CHR ''S'' then
        two_of (in_chars ''6'') (in_chars ''01'') s @ two_of (in_chars ''012345'') is_digit s
        @ one_of is_digit s
      else if d = CHR ''f'' then fraction_digits s
      else [])"

fun match_items :: "re_item list \<Rightarrow> string \<Rightarrow> ((char \<times> nat) list \<times> string) list" where
  "match_items [] s = [([], s)]"
| "match_items (Lit c # items) s =
     (case s of [] \<Rightarrow> [] | a # r \<Rightarrow> if a = c then match_items items r else [])"
| "match_items (Ws # items) s = concat (map (match_items items) (ws_run s))"
| "match_items (Dir d # items) s =
     concat (map (\<lambda>(v, r). map (\<lambda>(caps, r'). ((d, v) # caps, r')) (match_items items r))
                 (directive d s))"

definition leap_year :: "nat \<Rightarrow> bool" where
  "leap_year y \<longleftrightarrow> y mod 4 = 0 \<and> (y mod 100 \<noteq> 0 \<or> y mod 400 = 0)"

definition days_in_month :: "nat \<Rightarrow> nat \<Rightarrow> nat" where
  "days_in_month y m =
     (if m = 2 then (if leap_year y then 29 else 28)
      else if m \<in> {4, 6, 9, 11} then 30 else 31)"

definition valid_date :: "nat \<Rightarrow> nat \<Rightarrow> nat \<Rightarrow> bool" where
  "valid_date y m d \<longleftrightarrow>
     1 \<le> y \<and> y \<le> 9999 \<and> 1 \<le> m \<and> m \<le> 12 \<and> 1 \<le> d \<and> d \<le> days_in_month y m"

definition capture :: "(char \<times> nat) list \<Rightarrow> char \<Rightarrow> nat \<Rightarrow> nat" where
  "capture caps d dflt = (case map_of caps d of None \<Rightarrow> dflt | Some v \<Rightarrow> v)"

text \<open>
  \<open>strptime s fmt\<close> is \<open>None\<close> where \<^verbatim>\<open>time.strptime(s, fmt)\<close> raises
  \<^verbatim>\<open>ValueError\<close>, and the fields read otherwise. A missing year is 1900, a missing
  month or day is 1.
\<close>

definition strptime :: "string \<Rightarrow> string \<Rightarrow> (char \<times> nat) list option" where
  "strptime s fmt =
     (case match_items (compile_format fmt) s of
        [] \<Rightarrow> None
      | (caps, rest) # _ \<Rightarrow>
          if rest \<noteq> [] then None
          else if valid_date (capture caps (CHR ''Y'') 1900) (capture caps (CHR ''m'') 1)
                    (capture caps (CHR ''d'') 1)
          then Some caps else None)"

subsection \<open>Type Classifier: \<^verbatim>\<open>get_type\<close>\<close>

definition dt_formats :: "(string \<times> string) list" where
  "dt_formats =
     [(''%Y-%m-%d %H:%M:%S'', ''datetime''),
      (''%Y-%m-%d %H:%M:%S.%f'', ''datetime''),
      (''%Y-%m-%d'', ''date''),
      (''%H:%M:%S'', ''time'')]"

text \<open>The loop over \<open>dt_formats\<close>: the first format that parses decides.\<close>

fun try_formats :: "string \<Rightarrow> (string \<times> string) list \<Rightarrow> string option" where
  "try_formats s [] = None"
| "try_formats s ((dt_format, dt_type) # fs) =
     (case strptime s dt_format of None \<Rightarrow> try_formats s fs | Some _ \<Rightarrow> Some dt_type)"

definition get_type :: "string \<Rightarrow> string" where
  "get_type s =
     (case py_int s of
        Some v \<Rightarrow> if \<bar>v\<bar> > 2147483647 then ''bigint'' else ''int''
      | None \<Rightarrow>
          if py_float s then ''double''
          else (case try_formats s dt_formats of
                  Some dt_type \<Rightarrow> dt_type
                | None \<Rightarrow> if length s > 255 then ''text'' else ''varchar(255)''))"

subsection \<open>Mode reduction: \<^verbatim>\<open>most_common\<close>\<close>

text \<open>
  \<^verbatim>\<open>max(l, key=f)\<close> on a non-empty list, with the first element as the initial
  candidate: a later element replaces the candidate only when its key is strictly larger.
\<close>

fun max_key :: "('a \<Rightarrow> nat) \<Rightarrow> 'a \<Rightarrow> 'a list \<Rightarrow> 'a" where
  "max_key f best [] = best"
| "max_key f best (x # xs) = max_key f (if f x > f best then x else best) xs"

definition most_common :: "string list \<Rightarrow> string \<Rightarrow> string" where
  "most_common l dflt =
     (case l of
        [] \<Rightarrow> dflt
      | x # xs \<Rightarrow>
          (case find (\<lambda>dt_type. dt_type \<in> set l) [''text'', ''bigint''] of
             Some dt_type \<Rightarrow> dt_type
           | None \<Rightarrow> max_key (count_list l) x xs))"

subsection \<open>Column Type Aggregator: \<^verbatim>\<open>get_col_types\<close>\<close>

datatype error = IndexError | UnboundLocalError | ZeroDivisionError

text \<open>
  \<^verbatim>\<open>csv_types\<close> is a \<^verbatim>\<open>defaultdict(list)\<close>: a total map from column names to lists,
  empty where nothing was stored. The inner loop classifies the cells of one record and
  appends each result to the list stored under the header name at the cell's index;
  \<^verbatim>\<open>header[col_i]\<close> raises \<^verbatim>\<open>IndexError\<close> beyond the end of the header.
\<close>

fun classify_row ::
  "string list \<Rightarrow> (string \<Rightarrow> string list) \<Rightarrow> nat \<Rightarrow> string list
     \<Rightarrow> error + (string \<Rightarrow> string list)" where
  "classify_row header csv_types col_i [] = Inr csv_types"
| "classify_row header csv_types col_i (s # row) =
     (let data_type = get_type s in
      if col_i < length header
      then classify_row header
             (csv_types(header ! col_i := csv_types (header ! col_i) @ [data_type]))
             (Suc col_i) row
      else Inl IndexError)"

text \<open>
  The outer loop over the records, numbered from \<open>row_i\<close>. The variable
  \<^verbatim>\<open>header\<close> is unassigned (\<open>None\<close>) until record 0 has been read; the loop stops
  after the record numbered \<open>max_rows\<close>.
\<close>

fun sample_rows ::
  "nat \<Rightarrow> string list option \<Rightarrow> (string \<Rightarrow> string list) \<Rightarrow> nat \<Rightarrow> string list list
     \<Rightarrow> error + (string list option \<times> (string \<Rightarrow> string list))" where
  "sample_rows max_rows header csv_types row_i [] = Inr (header, csv_types)"
| "sample_rows max_rows header csv_types row_i (row # rows) =
     (case (if row_i = 0 then Inr (Some row, csv_types)
            else (case header of
                    None \<Rightarrow> Inl UnboundLocalError
                  | Some h \<Rightarrow> (case classify_row h csv_types 0 row of
                                Inl e \<Rightarrow> Inl e
                              | Inr csv_types' \<Rightarrow> Inr (header, csv_types')))) of
        Inl e \<Rightarrow> Inl e
      | Inr (header', csv_types') \<Rightarrow>
          if row_i = max_rows then Inr (header', csv_types')
          else sample_rows max_rows header' csv_types' (Suc row_i) rows)"

definition get_col_types :: "string list list \<Rightarrow> nat \<Rightarrow> error + string list" where
  "get_col_types input_file max_rows =
     (case sample_rows max_rows None (\<lambda>_. []) 0 input_file of
        Inl e \<Rightarrow> Inl e
      | Inr (header, csv_types) \<Rightarrow>
          (case header of
             None \<Rightarrow> Inl UnboundLocalError
           | Some h \<Rightarrow> Inr (map (\<lambda>col. most_common (csv_types col) ''varchar(255)'') h)))"

subsection \<open>Schema Generator: \<^verbatim>\<open>get_schema\<close> and \<^verbatim>\<open>get_insert\<close>\<close>

definition nl :: char where
  "nl = CHR 0x0A"

fun get_schema_loop :: "string \<Rightarrow> (string \<times> string) list \<Rightarrow> string" where
  "get_schema_loop schema_sql [] = schema_sql"
| "get_schema_loop schema_sql ((col_name, col_type) # cols) =
     get_schema_loop
       (if col_name \<noteq> ''id'' then schema_sql @ [nl] @ col_name @ '' '' @ col_type @ '',''
        else schema_sql)
       cols"

definition get_schema :: "string \<Rightarrow> string list \<Rightarrow> string list \<Rightarrow> string" where
  "get_schema table header col_types =
     get_schema_loop
       (''CREATE TABLE IF NOT EXISTS `'' @ table @ ''` ('' @ [nl, nl] @ ''        '')
       (zip header col_types)
     @ [nl] @ ''PRIMARY KEY (id)'' @ [nl] @ ''        ) DEFAULT CHARSET=utf8;''"

fun join :: "string \<Rightarrow> string list \<Rightarrow> string" where
  "join sep [] = []"
| "join sep [x] = x"
| "join sep (x # y # ys) = x @ sep @ join sep (y # ys)"

definition get_insert :: "string \<Rightarrow> string list \<Rightarrow> string" where
  "get_insert table header =
     (let field_names = join '', '' header;
          field_markers = join '', '' (map (\<lambda>col. ''%s'') header)
      in ''INSERT INTO `'' @ table @ ''` ('' @ field_names @ '') VALUES ('' @ field_markers
           @ '');'')"

subsection \<open>Header Normalizer: \<^verbatim>\<open>format_header\<close>\<close>

text \<open>\<^verbatim>\<open>re.sub('\W+', '_', s)\<close>: every maximal run of non-word characters becomes one underscore.\<close>

function sub_nonword :: "string \<Rightarrow> string" where
  "sub_nonword [] = []"
| "sub_nonword (c # cs) =
     (if is_word c then c # sub_nonword cs
      else CHR ''_'' # sub_nonword (dropWhile (\<lambda>c. \<not> is_word c) cs))"
  by pat_completeness auto
termination
  by (relation "measure length") (auto simp: less_Suc_eq_le length_dropWhile_le)

definition safe_col :: "string \<Rightarrow> string" where
  "safe_col s = strip_chars (\<lambda>c. c = CHR ''_'') (sub_nonword (lower s))"

text \<open>The decimal digits of a number, as \<^verbatim>\<open>'{}'.format\<close> prints it.\<close>

function str_nat :: "nat \<Rightarrow> string" where
  "str_nat n = (if n < 10 then [''0123456789'' ! n]
                else str_nat (n div 10) @ [''0123456789'' ! (n mod 10)])"
  by pat_completeness auto
termination
  by (relation "measure id") auto

declare str_nat.simps [simp del]

text \<open>\<^verbatim>\<open>counts\<close> is a \<^verbatim>\<open>defaultdict(int)\<close>: a total map, 0 where nothing was stored.\<close>

fun format_header_loop :: "string list \<Rightarrow> (string \<Rightarrow> nat) \<Rightarrow> string list \<Rightarrow> string list" where
  "format_header_loop header counts [] = header"
| "format_header_loop header counts (col # row) =
     (let col1 = safe_col col;
          counts' = counts(col1 := counts col1 + 1);
          col2 = (if counts' col1 > 1 then col1 @ str_nat (counts' col1) else col1);
          col3 = ''`'' @ col2 @ ''`''
      in format_header_loop (header @ [col3]) counts' row)"

definition format_header :: "string list \<Rightarrow> string list" where
  "format_header row = format_header_loop [] (\<lambda>_. 0) row"

subsection \<open>Load Pipeline: \<^verbatim>\<open>main\<close>\<close>

text \<open>
  The Database Gateway is seen through the calls made on it, recorded in order. A call
  is assumed to return normally (the only failure the script handles, that of
  \<^verbatim>\<open>CREATE INDEX\<close>, it ignores). \<open>Execute sql None\<close> is \<^verbatim>\<open>cursor.execute(sql)\<close>
  and \<open>Execute sql (Some row)\<close> is \<^verbatim>\<open>cursor.execute(sql, row)\<close>.
\<close>

datatype db_call =
    Connect string string string
  | Execute string "string list option"
  | Select_db string
  | Commit

text \<open>The variables of the loop of \<^verbatim>\<open>main\<close>; \<^verbatim>\<open>insert_sql\<close> is unassigned at first.\<close>

record load_state =
  cur_header :: "string list option"
  cur_insert_sql :: "string option"
  db_calls :: "db_call list"

text \<open>Truth value of \<^verbatim>\<open>header\<close>: \<^verbatim>\<open>None\<close> and the empty list are false.\<close>

fun truthy :: "string list option \<Rightarrow> bool" where
  "truthy None = False"
| "truthy (Some h) = (h \<noteq> [])"

text \<open>\<^verbatim>\<open>while len(row) < len(header): row.append('')\<close>\<close>

function pad_row :: "string list \<Rightarrow> string list \<Rightarrow> string list" where
  "pad_row h row = (if length row < length h then pad_row h (row @ [[]]) else row)"
  by pat_completeness auto
termination
  by (relation "measure (\<lambda>(h, row). length h - length row)") auto

declare pad_row.simps [simp del]

text \<open>
  One iteration of the loop on record \<open>i\<close>. The result is the new state and the
  exception raised, if any.
\<close>

definition load_row ::
  "string \<Rightarrow> string list \<Rightarrow> int \<Rightarrow> load_state \<Rightarrow> nat \<times> string list
     \<Rightarrow> load_state \<times> error option" where
  "load_row table col_types max_inserts st ir =
     (let (i, row) = ir in
      if truthy (cur_header st) then
        (case (cur_header st, cur_insert_sql st) of
           (Some h, Some insert_sql) \<Rightarrow>
             (let row' = pad_row h row;
                  st1 = st\<lparr>db_calls := db_calls st @ [Execute insert_sql (Some row')]\<rparr>
              in if max_inserts = 0 then (st1, Some ZeroDivisionError)
                 else if int i mod max_inserts = 0
                 then (st1\<lparr>db_calls := db_calls st1 @ [Commit]\<rparr>, None)
                 else (st1, None))
         | _ \<Rightarrow> (st, Some UnboundLocalError))
      else
        (let h = format_header row;
             schema_sql = get_schema table h col_types
         in (\<lparr>cur_header = Some h,
              cur_insert_sql = Some (get_insert table h),
              db_calls = db_calls st
                @ [Execute (''DROP TABLE IF EXISTS `'' @ table @ ''`;'') None,
                   Execute schema_sql None,
                   Execute (''CREATE INDEX ids ON `'' @ table @ ''` (id);'') None]\<rparr>,
             None)))"

fun load_rows ::
  "string \<Rightarrow> string list \<Rightarrow> int \<Rightarrow> load_state \<Rightarrow> (nat \<times> string list) list
     \<Rightarrow> load_state \<times> error option" where
  "load_rows table col_types max_inserts st [] = (st, None)"
| "load_rows table col_types max_inserts st (ir # rest) =
     (case load_row table col_types max_inserts st ir of
        (st', None) \<Rightarrow> load_rows table col_types max_inserts st' rest
      | (st', Some e) \<Rightarrow> (st', Some e))"

text \<open>
  The second pass over the file (the loop of \<^verbatim>\<open>main\<close> and the final commit), from the
  gateway calls \<open>calls0\<close> made before it. The result is the calls made and the exception
  that ended the run, if any.
\<close>

definition load_pipeline ::
  "db_call list \<Rightarrow> string \<Rightarrow> string list \<Rightarrow> int \<Rightarrow> string list list
     \<Rightarrow> db_call list \<times> error option" where
  "load_pipeline calls0 table col_types max_inserts input_file =
     (case load_rows table col_types max_inserts
             \<lparr>cur_header = None, cur_insert_sql = None, db_calls = calls0\<rparr>
             (enumerate 0 input_file) of
        (st, Some e) \<Rightarrow> (db_calls st, Some e)
      | (st, None) \<Rightarrow> (db_calls st @ [Commit], None))"

definition main ::
  "string list list \<Rightarrow> string \<Rightarrow> string \<Rightarrow> string \<Rightarrow> string \<Rightarrow> string \<Rightarrow> int
     \<Rightarrow> db_call list \<times> error option" where
  "main input_file user password host table database max_inserts =
     (let calls0 = [Connect host user password,
                    Execute (''CREATE DATABASE IF NOT EXISTS `'' @ database @ ''`;'') None,
                    Select_db database]
      in case get_col_types input_file 1000 of
           Inl e \<Rightarrow> (calls0, Some e)
         | Inr col_types \<Rightarrow> load_pipeline calls0 table col_types max_inserts input_file)"

text \<open>
  The gateway calls made by the time the loop has processed the first \<open>k\<close> records of
  the file.
\<close>

definition calls_after ::
  "nat \<Rightarrow> db_call list \<Rightarrow> string \<Rightarrow> string list \<Rightarrow> int \<Rightarrow> string list list \<Rightarrow> db_call list" where
  "calls_after k calls0 table col_types max_inserts input_file =
     db_calls (fst (load_rows table col_types max_inserts
                      \<lparr>cur_header = None, cur_insert_sql = None, db_calls = calls0\<rparr>
                      (enumerate 0 (take k input_file))))"

subsection \<open>Columns of a file\<close>

text \<open>
  For stating properties: the cells that a list of records has at index \<open>j\<close>, in record
  order. A record with too few fields has no cell there.
\<close>

definition column_cells :: "nat \<Rightarrow> string list list \<Rightarrow> string list" where
  "column_cells j rows = concat (map (\<lambda>row. if j < length row then [row ! j] else []) rows)"

section \<open>Properties\<close>

subsection \<open>Mode reduction\<close>

lemma max_key_first:
  "\<exists>i < length (b # xs). max_key f b xs = (b # xs) ! i
      \<and> (\<forall>x \<in> set (b # xs). f x \<le> f ((b # xs) ! i))
      \<and> (\<forall>j < i. f ((b # xs) ! j) < f ((b # xs) ! i))"
proof (induction xs arbitrary: b)
  case Nil
  show ?case by simp
next
  case (Cons x xs)
  show ?case
  proof (cases "f x > f b")
    case True
    from Cons.IH [of x] obtain i where i: "i < length (x # xs)"
      "max_key f x xs = (x # xs) ! i"
      "\<forall>y \<in> set (x # xs). f y \<le> f ((x # xs) ! i)"
      "\<forall>j < i. f ((x # xs) ! j) < f ((x # xs) ! i)" by blast
    from i(3) have fx: "f x \<le> f ((x # xs) ! i)" by simp
    have "\<forall>j < Suc i. f ((b # x # xs) ! j) < f ((b # x # xs) ! Suc i)"
    proof (intro allI impI)
      fix j assume "j < Suc i"
      then show "f ((b # x # xs) ! j) < f ((b # x # xs) ! Suc i)"
        using True fx i(4) by (cases j) auto
    qed
    moreover have "\<forall>y \<in> set (b # x # xs). f y \<le> f ((b # x # xs) ! Suc i)"
      using True fx i(3) by auto
    moreover have "max_key f b (x # xs) = (b # x # xs) ! Suc i"
      using True i(2) by simp
    moreover have "Suc i < length (b # x # xs)" using i(1) by simp
    ultimately show ?thesis by blast
  next
    case False
    from Cons.IH [of b] obtain i where i: "i < length (b # xs)"
      "max_key f b xs = (b # xs) ! i"
      "\<forall>y \<in> set (b # xs). f y \<le> f ((b # xs) ! i)"
      "\<forall>j < i. f ((b # xs) ! j) < f ((b # xs) ! i)" by blast
    show ?thesis
    proof (cases i)
      case 0
      have "max_key f b (x # xs) = (b # x # xs) ! 0" using False i(2) 0 by simp
      moreover have "\<forall>y \<in> set (b # x # xs). f y \<le> f ((b # x # xs) ! 0)"
        using False i(3) 0 by auto
      ultimately show ?thesis by (intro exI [of _ 0]) simp
    next
      case (Suc k)
      have b_lt: "f b < f (xs ! k)" using i(4) Suc by auto
      have "\<forall>j < Suc (Suc k). f ((b # x # xs) ! j) < f ((b # x # xs) ! Suc (Suc k))"
      proof (intro allI impI)
        fix j assume j: "j < Suc (Suc k)"
        show "f ((b # x # xs) ! j) < f ((b # x # xs) ! Suc (Suc k))"
        proof (cases j)
          case 0
          then show ?thesis using b_lt by simp
        next
          case (Suc j')
          show ?thesis
          proof (cases j')
            case 0
            then show ?thesis using Suc False b_lt by simp
          next
            case (Suc j'')
            with \<open>j = Suc j'\<close> j have "Suc j'' < i" using \<open>i = Suc k\<close> by simp
            with i(4) have "f ((b # xs) ! Suc j'') < f ((b # xs) ! i)" by blast
            then show ?thesis using Suc \<open>j = Suc j'\<close> \<open>i = Suc k\<close> by simp
          qed
        qed
      qed
      moreover have "\<forall>y \<in> set (b # x # xs). f y \<le> f ((b # x # xs) ! Suc (Suc k))"
        using False i(3) Suc b_lt by auto
      moreover have "max_key f b (x # xs) = (b # x # xs) ! Suc (Suc k)"
        using False i(2) Suc by simp
      moreover have "Suc (Suc k) < length (b # x # xs)" using i(1) Suc by simp
      ultimately show ?thesis by blast
    qed
  qed
qed

lemma most_common_text: "''text'' \<in> set l \<Longrightarrow> most_common l d = ''text''"
  by (cases l) (auto simp: most_common_def)

lemma most_common_bigint:
  "''text'' \<notin> set l \<Longrightarrow> ''bigint'' \<in> set l \<Longrightarrow> most_common l d = ''bigint''"
  by (cases l) (auto simp: most_common_def)

lemma most_common_mode:
  assumes "l \<noteq> []" "''text'' \<notin> set l" "''bigint'' \<notin> set l"
  shows "\<exists>i < length l. most_common l d = l ! i
      \<and> (\<forall>x \<in> set l. count_list l x \<le> count_list l (l ! i))
      \<and> (\<forall>j < i. count_list l (l ! j) < count_list l (l ! i))"
proof -
  from assms(1) obtain x xs where l: "l = x # xs" by (cases l) auto
  have "most_common l d = max_key (count_list l) x xs"
    using assms(2,3) unfolding most_common_def l by auto
  then show ?thesis using max_key_first [of x xs "count_list l"] unfolding l by metis
qed

text \<open>
  C4. The reduction of a list of observed types: \<open>text\<close> wins wherever it occurs, else
  \<open>bigint\<close> wins wherever it occurs, else the result is an element of the list that no
  element occurs more often than, and every element before its position \<open>i\<close> occurs
  strictly less often (the first of the most frequent elements); the empty list gives the
  default \<open>varchar(255)\<close>. So \<open>[int, int, text]\<close> gives \<open>text\<close>, \<open>[int, int, bigint]\<close>
  gives \<open>bigint\<close> and \<open>[int, int, double]\<close> gives \<open>int\<close>.
\<close>

theorem most_common_policy:
  "(''text'' \<in> set l \<longrightarrow> most_common l d = ''text'')
   \<and> (''text'' \<notin> set l \<and> ''bigint'' \<in> set l \<longrightarrow> most_common l d = ''bigint'')
   \<and> (l \<noteq> [] \<and> ''text'' \<notin> set l \<and> ''bigint'' \<notin> set l \<longrightarrow>
        (\<exists>i < length l. most_common l d = l ! i
           \<and> (\<forall>x \<in> set l. count_list l x \<le> count_list l (l ! i))
           \<and> (\<forall>j < i. count_list l (l ! j) < count_list l (l ! i))))
   \<and> most_common [] ''varchar(255)'' = ''varchar(255)''
   \<and> most_common [''int'', ''int'', ''text''] d = ''text''
   \<and> most_common [''int'', ''int'', ''bigint''] d = ''bigint''
   \<and> most_common [''int'', ''int'', ''double''] d = ''int''"
proof (intro conjI)
  show "most_common [] ''varchar(255)'' = ''varchar(255)''" by (simp add: most_common_def)
  show "most_common [''int'', ''int'', ''text''] d = ''text''" by (simp add: most_common_def)
  show "most_common [''int'', ''int'', ''bigint''] d = ''bigint''" by (simp add: most_common_def)
  show "most_common [''int'', ''int'', ''double''] d = ''int''" by (simp add: most_common_def)
qed (use most_common_text most_common_bigint most_common_mode in blast)+

theorem most_common_policy_witness:
  "''text'' \<in> set [''date'', ''text'', ''int'']
   \<and> most_common [''date'', ''text'', ''int''] ''varchar(255)'' = ''text''
   \<and> ''text'' \<notin> set [''int'', ''bigint''] \<and> ''bigint'' \<in> set [''int'', ''bigint'']
   \<and> most_common [''int'', ''bigint''] ''varchar(255)'' = ''bigint''
   \<and> [''double'', ''int'', ''int'', ''double''] \<noteq> []
   \<and> ''text'' \<notin> set [''double'', ''int'', ''int'', ''double'']
   \<and> ''bigint'' \<notin> set [''double'', ''int'', ''int'', ''double'']
   \<and> most_common [''double'', ''int'', ''int'', ''double''] ''varchar(255)'' = ''double''"
proof -
  have a: "most_common [''date'', ''text'', ''int''] ''varchar(255)'' = ''text''"
    using most_common_policy [of "[''date'', ''text'', ''int'']" "''varchar(255)''"] by simp
  have b: "most_common [''int'', ''bigint''] ''varchar(255)'' = ''bigint''"
    using most_common_policy [of "[''int'', ''bigint'']" "''varchar(255)''"] by simp
  let ?l = "[''double'', ''int'', ''int'', ''double'']"
  have "\<exists>i < length ?l. most_common ?l ''varchar(255)'' = ?l ! i
           \<and> (\<forall>x \<in> set ?l. count_list ?l x \<le> count_list ?l (?l ! i))
           \<and> (\<forall>j < i. count_list ?l (?l ! j) < count_list ?l (?l ! i))"
    using most_common_policy [of ?l "''varchar(255)''"] by simp
  then obtain i where i: "i < length ?l" "most_common ?l ''varchar(255)'' = ?l ! i"
    "\<forall>j < i. count_list ?l (?l ! j) < count_list ?l (?l ! i)" by blast
  have "i = 0"
  proof (rule ccontr)
    assume "i \<noteq> 0"
    then have "count_list ?l (?l ! 0) < count_list ?l (?l ! i)" using i(3) by blast
    moreover have "i \<in> {1, 2, 3}" using i(1) \<open>i \<noteq> 0\<close> by auto
    ultimately show False by auto
  qed
  then have c: "most_common ?l ''varchar(255)'' = ''double''" using i(2) by simp
  show ?thesis using a b c by simp
qed

subsection \<open>Type Classifier\<close>



lemmas py_int_eval = py_int_def split_sign_def strip_chars_def is_space_def digitpart_def
  digits_value_def is_digit_def digit_val_def



lemma try_formats_range:
  "try_formats s dt_formats \<in> {None, Some ''datetime'', Some ''date'', Some ''time''}"
  by (simp add: dt_formats_def split: option.splits)

text \<open>
  C6. The classifier returns one of the eight type names on every string: each
  \<^verbatim>\<open>ValueError\<close> of the three parsers is caught and leads to the next test, and the last
  test has no failing branch. The empty string is classified \<open>varchar(255)\<close>.
\<close>

theorem get_type_total:
  "get_type s \<in> {''int'', ''bigint'', ''double'', ''datetime'', ''date'', ''time'', ''text'',
                  ''varchar(255)''}
   \<and> get_type [] = ''varchar(255)''"
proof
  show "get_type s \<in> {''int'', ''bigint'', ''double'', ''datetime'', ''date'', ''time'', ''text'',
                  ''varchar(255)''}"
    using try_formats_range [of s] unfolding get_type_def
    by (auto split: option.splits)
  have "py_int [] = None" by (simp add: py_int_eval)
  moreover have "\<not> py_float []"
    by (simp add: py_float_def split_sign_def strip_chars_def float_number_def lower_def)
  moreover have "try_formats [] dt_formats = None"
    by (simp add: dt_formats_def strptime_def directive_def is_space_def two_of_def one_of_def)
  ultimately show "get_type [] = ''varchar(255)''" by (simp add: get_type_def)
qed

subsection \<open>Load Pipeline\<close>

lemma pad_row_eq: "pad_row h row = row @ replicate (length h - length row) []"
proof (induction h row rule: pad_row.induct)
  case (1 h row)
  show ?case
  proof (cases "length row < length h")
    case True
    then have "length h - length row = Suc (length h - length (row @ [[]]))" by simp
    then have "replicate (length h - length row) ([]::string)
                 = [] # replicate (length h - length (row @ [[]])) []"
      by (simp only: replicate_Suc)
    with 1 True show ?thesis by (subst pad_row.simps) simp
  next
    case False
    then show ?thesis by (subst pad_row.simps) simp
  qed
qed

lemma format_header_loop_length:
  "length (format_header_loop header counts row) = length header + length row"
  by (induction row arbitrary: header counts) (simp_all add: Let_def)

lemma format_header_length: "length (format_header row) = length row"
  by (simp add: format_header_def format_header_loop_length)

lemma format_header_Nil_iff: "format_header row = [] \<longleftrightarrow> row = []"
  using format_header_length [of row] by (metis length_0_conv)

lemma load_rows_snoc:
  "load_rows table col_types max_inserts st (irs @ [ir]) =
     (case load_rows table col_types max_inserts st irs of
        (st', None) \<Rightarrow> load_row table col_types max_inserts st' ir
      | (st', Some e) \<Rightarrow> (st', Some e))"
proof (induction irs arbitrary: st)
  case Nil
  show ?case by (simp split: prod.splits option.splits)
next
  case (Cons a irs)
  show ?case by (simp add: Cons.IH split: prod.splits option.splits)
qed

lemma enumerate_take_Suc:
  "k < length rows \<Longrightarrow>
     enumerate 0 (take (Suc k) rows) = enumerate 0 (take k rows) @ [(k, rows ! k)]"
  by (simp add: take_Suc_conv_app_nth enumerate_append_eq)

lemma find_take_Suc:
  "k < length rows \<Longrightarrow>
     find P (take (Suc k) rows) =
       (case find P (take k rows) of
          None \<Rightarrow> if P (rows ! k) then Some (rows ! k) else None
        | Some r \<Rightarrow> Some r)"
proof -
  have "find P (xs @ [x]) = (case find P xs of None \<Rightarrow> if P x then Some x else None
                             | Some r \<Rightarrow> Some r)" for xs x
    by (induction xs) auto
  then show "k < length rows \<Longrightarrow> ?thesis" by (simp add: take_Suc_conv_app_nth)
qed

text \<open>The state of the loop after \<open>k\<close> records.\<close>

lemma load_rows_state:
  assumes "max_inserts \<noteq> 0" "k \<le> length input_file"
  shows "\<exists>st. load_rows table col_types max_inserts
                \<lparr>cur_header = None, cur_insert_sql = None, db_calls = calls0\<rparr>
                (enumerate 0 (take k input_file)) = (st, None)
           \<and> (case find (\<lambda>r. r \<noteq> []) (take k input_file) of
                None \<Rightarrow> \<not> truthy (cur_header st)
              | Some hrow \<Rightarrow> cur_header st = Some (format_header hrow)
                   \<and> cur_insert_sql st = Some (get_insert table (format_header hrow)))"
  using assms(2)
proof (induction k)
  case 0
  show ?case by simp
next
  case (Suc k)
  then have k: "k < length input_file" by simp
  from Suc obtain st where st:
    "load_rows table col_types max_inserts
       \<lparr>cur_header = None, cur_insert_sql = None, db_calls = calls0\<rparr>
       (enumerate 0 (take k input_file)) = (st, None)"
    "case find (\<lambda>r. r \<noteq> []) (take k input_file) of
       None \<Rightarrow> \<not> truthy (cur_header st)
     | Some hrow \<Rightarrow> cur_header st = Some (format_header hrow)
          \<and> cur_insert_sql st = Some (get_insert table (format_header hrow))"
    by auto
  have step: "load_rows table col_types max_inserts
       \<lparr>cur_header = None, cur_insert_sql = None, db_calls = calls0\<rparr>
       (enumerate 0 (take (Suc k) input_file))
       = load_row table col_types max_inserts st (k, input_file ! k)"
    by (simp only: enumerate_take_Suc [OF k] load_rows_snoc st(1)) simp
  show ?case
  proof (cases "find (\<lambda>r. r \<noteq> []) (take k input_file)")
    case None
    with st(2) have f: "\<not> truthy (cur_header st)" by simp
    show ?thesis
      unfolding step find_take_Suc [OF k] None
      using f by (simp add: load_row_def Let_def format_header_Nil_iff)
  next
    case (Some hrow)
    with st(2) have h: "cur_header st = Some (format_header hrow)"
      "cur_insert_sql st = Some (get_insert table (format_header hrow))" by simp_all
    from Some have "hrow \<noteq> []" by (auto dest: find_Some_iff [THEN iffD1])
    then have t: "truthy (cur_header st)" by (simp add: h format_header_Nil_iff)
    show ?thesis
      unfolding step find_take_Suc [OF k] Some
      using t h assms(1) by (simp add: load_row_def Let_def)
  qed
qed

lemma calls_after_Suc:
  assumes "max_inserts \<noteq> 0" "i < length input_file"
  shows "calls_after (Suc i) calls0 table col_types max_inserts input_file =
     calls_after i calls0 table col_types max_inserts input_file
     @ (case find (\<lambda>r. r \<noteq> []) (take i input_file) of
          None \<Rightarrow>
            [Execute (''DROP TABLE IF EXISTS `'' @ table @ ''`;'') None,
             Execute (get_schema table (format_header (input_file ! i)) col_types) None,
             Execute (''CREATE INDEX ids ON `'' @ table @ ''` (id);'') None]
        | Some hrow \<Rightarrow>
            Execute (get_insert table (format_header hrow))
                    (Some (pad_row (format_header hrow) (input_file ! i)))
            # (if int i mod max_inserts = 0 then [Commit] else []))"
proof -
  from assms(2) have "i \<le> length input_file" by simp
  from load_rows_state [OF assms(1) this, of table col_types calls0]
  obtain st where st:
    "load_rows table col_types max_inserts
       \<lparr>cur_header = None, cur_insert_sql = None, db_calls = calls0\<rparr>
       (enumerate 0 (take i input_file)) = (st, None)"
    "case find (\<lambda>r. r \<noteq> []) (take i input_file) of
       None \<Rightarrow> \<not> truthy (cur_header st)
     | Some hrow \<Rightarrow> cur_header st = Some (format_header hrow)
          \<and> cur_insert_sql st = Some (get_insert table (format_header hrow))"
    by auto
  have step: "load_rows table col_types max_inserts
       \<lparr>cur_header = None, cur_insert_sql = None, db_calls = calls0\<rparr>
       (enumerate 0 (take (Suc i) input_file))
       = load_row table col_types max_inserts st (i, input_file ! i)"
    by (simp only: enumerate_take_Suc [OF assms(2)] load_rows_snoc st(1)) simp
  show ?thesis
  proof (cases "find (\<lambda>r. r \<noteq> []) (take i input_file)")
    case None
    with st(2) have f: "\<not> truthy (cur_header st)" by simp
    show ?thesis
      unfolding calls_after_def step None st(1)
      using f by (simp add: load_row_def Let_def)
  next
    case (Some hrow)
    with st(2) have h: "cur_header st = Some (format_header hrow)"
      "cur_insert_sql st = Some (get_insert table (format_header hrow))" by simp_all
    from Some have "hrow \<noteq> []" by (auto dest: find_Some_iff [THEN iffD1])
    then have t: "truthy (cur_header st)" by (simp add: h format_header_Nil_iff)
    show ?thesis
      unfolding calls_after_def step Some st(1)
      using t h assms(1) by (simp add: load_row_def Let_def)
  qed
qed

lemma load_pipeline_final:
  assumes "max_inserts \<noteq> 0"
  shows "load_pipeline calls0 table col_types max_inserts input_file =
     (calls_after (length input_file) calls0 table col_types max_inserts input_file @ [Commit],
      None)"
proof -
  from load_rows_state [OF assms, of "length input_file" input_file table col_types calls0]
  obtain st where "load_rows table col_types max_inserts
       \<lparr>cur_header = None, cur_insert_sql = None, db_calls = calls0\<rparr>
       (enumerate 0 input_file) = (st, None)" by auto
  then show ?thesis by (simp add: load_pipeline_def calls_after_def)
qed

lemma calls_after_extends:
  assumes "max_inserts \<noteq> 0" "i \<le> k" "k \<le> length input_file"
  shows "\<exists>later. calls_after k calls0 table col_types max_inserts input_file =
           calls_after i calls0 table col_types max_inserts input_file @ later"
  using assms(2,3)
proof (induction k)
  case 0
  then show ?case by simp
next
  case (Suc k)
  show ?case
  proof (cases "i = Suc k")
    case True
    then show ?thesis by simp
  next
    case False
    with Suc have "i \<le> k" "k < length input_file" by simp_all
    with Suc.IH obtain later where
      "calls_after k calls0 table col_types max_inserts input_file =
         calls_after i calls0 table col_types max_inserts input_file @ later" by auto
    then show ?thesis
      using calls_after_Suc [OF assms(1) \<open>k < length input_file\<close>, of calls0 table col_types]
      by simp
  qed
qed

text \<open>
  C7. Once the header is fixed (some earlier record \<open>hrow\<close> was the first non-empty one),
  processing record \<open>i\<close> issues one parameterized \<^verbatim>\<open>INSERT\<close> whose parameters are the
  record itself when it has at least as many fields as the header (nothing is cut off), and
  the record followed by empty strings up to exactly the header length when it is shorter.
  The statement names the header columns in header order, with one marker per column, and
  the parameters are the fields in record order.
\<close>

theorem load_pads_short_rows:
  assumes "max_inserts \<noteq> 0" and "i < length input_file"
    and "find (\<lambda>r. r \<noteq> []) (take i input_file) = Some hrow"
  shows "calls_after (Suc i) calls0 table col_types max_inserts input_file =
           calls_after i calls0 table col_types max_inserts input_file
           @ Execute (get_insert table (format_header hrow))
               (Some (if length (input_file ! i) < length (format_header hrow)
                      then input_file ! i
                           @ replicate (length (format_header hrow) - length (input_file ! i)) []
                      else input_file ! i))
             # (if int i mod max_inserts = 0 then [Commit] else [])
         \<and> (length (input_file ! i) < length (format_header hrow) \<longrightarrow>
              length (input_file ! i
                      @ replicate (length (format_header hrow) - length (input_file ! i)) [])
                = length (format_header hrow))
         \<and> get_insert table (format_header hrow) =
             ''INSERT INTO `'' @ table @ ''` ('' @ join '', '' (format_header hrow)
             @ '') VALUES ('' @ join '', '' (map (\<lambda>col. ''%s'') (format_header hrow)) @ '');''"
proof (intro conjI)
  show "calls_after (Suc i) calls0 table col_types max_inserts input_file =
           calls_after i calls0 table col_types max_inserts input_file
           @ Execute (get_insert table (format_header hrow))
               (Some (if length (input_file ! i) < length (format_header hrow)
                      then input_file ! i
                           @ replicate (length (format_header hrow) - length (input_file ! i)) []
                      else input_file ! i))
             # (if int i mod max_inserts = 0 then [Commit] else [])"
    using calls_after_Suc [OF assms(1,2), of calls0 table col_types] assms(3)
    by (simp add: pad_row_eq)
  show "get_insert table (format_header hrow) =
             ''INSERT INTO `'' @ table @ ''` ('' @ join '', '' (format_header hrow)
             @ '') VALUES ('' @ join '', '' (map (\<lambda>col. ''%s'') (format_header hrow)) @ '');''"
    by (simp add: get_insert_def)
qed simp

theorem load_pads_short_rows_witness:
  "(10000::int) \<noteq> 0 \<and> 1 < length [[''a'', ''b''], [''1'']]
   \<and> find (\<lambda>r. r \<noteq> []) (take 1 [[''a'', ''b''], [''1'']]) = Some [''a'', ''b'']
   \<and> calls_after 2 [] ''t'' [''int'', ''int''] 10000 [[''a'', ''b''], [''1'']] =
       calls_after 1 [] ''t'' [''int'', ''int''] 10000 [[''a'', ''b''], [''1'']]
       @ [Execute (get_insert ''t'' (format_header [''a'', ''b''])) (Some [''1'', ''''])]"
proof -
  have f: "find (\<lambda>r. r \<noteq> []) (take 1 [[''a'', ''b''], [''1'']]) = Some [''a'', ''b'']"
    by simp
  have n: "(10000::int) \<noteq> 0" by simp
  have l: "1 < length [[''a'', ''b''], [''1'']]" by simp
  from load_pads_short_rows [OF n l f, of "[]" "''t''" "[''int'', ''int'']"]
  have "calls_after (Suc 1) [] ''t'' [''int'', ''int''] 10000 [[''a'', ''b''], [''1'']] =
       calls_after 1 [] ''t'' [''int'', ''int''] 10000 [[''a'', ''b''], [''1'']]
       @ [Execute (get_insert ''t'' (format_header [''a'', ''b''])) (Some [''1'', ''''])]"
    by (simp add: format_header_length numeral_2_eq_2)
  then show ?thesis using f by (simp add: numeral_2_eq_2)
qed

text \<open>
  C8. With a non-zero batch size and a gateway whose calls return, the loop runs to the end
  of the file and the calls made are those of the loop followed by exactly one
  \<^verbatim>\<open>commit\<close>. Once the header is fixed, record \<open>i\<close> adds its \<^verbatim>\<open>INSERT\<close>, followed at
  once by a \<^verbatim>\<open>commit\<close> exactly when \<open>i mod max_inserts = 0\<close>; calls are only ever
  appended, so this stays so in the final sequence, in which every parameterized
  \<^verbatim>\<open>INSERT\<close> has a \<^verbatim>\<open>commit\<close> after it.
\<close>

theorem load_commits:
  assumes "max_inserts \<noteq> 0"
  shows "load_pipeline calls0 table col_types max_inserts input_file =
           (calls_after (length input_file) calls0 table col_types max_inserts input_file
            @ [Commit], None)
     \<and> (\<forall>i < length input_file. \<forall>hrow.
          find (\<lambda>r. r \<noteq> []) (take i input_file) = Some hrow \<longrightarrow>
          calls_after (Suc i) calls0 table col_types max_inserts input_file =
            calls_after i calls0 table col_types max_inserts input_file
            @ Execute (get_insert table (format_header hrow))
                      (Some (pad_row (format_header hrow) (input_file ! i)))
              # (if int i mod max_inserts = 0 then [Commit] else []))
     \<and> (\<forall>i \<le> length input_file. \<exists>later.
          calls_after (length input_file) calls0 table col_types max_inserts input_file =
            calls_after i calls0 table col_types max_inserts input_file @ later)
     \<and> (\<forall>k < length (fst (load_pipeline calls0 table col_types max_inserts input_file)).
          (\<exists>sql row. fst (load_pipeline calls0 table col_types max_inserts input_file) ! k
                       = Execute sql (Some row)) \<longrightarrow>
          (\<exists>k'. k < k'
             \<and> k' < length (fst (load_pipeline calls0 table col_types max_inserts input_file))
             \<and> fst (load_pipeline calls0 table col_types max_inserts input_file) ! k' = Commit))"
proof (intro conjI)
  show fin: "load_pipeline calls0 table col_types max_inserts input_file =
           (calls_after (length input_file) calls0 table col_types max_inserts input_file
            @ [Commit], None)"
    by (rule load_pipeline_final [OF assms])
  show "\<forall>i < length input_file. \<forall>hrow.
          find (\<lambda>r. r \<noteq> []) (take i input_file) = Some hrow \<longrightarrow>
          calls_after (Suc i) calls0 table col_types max_inserts input_file =
            calls_after i calls0 table col_types max_inserts input_file
            @ Execute (get_insert table (format_header hrow))
                      (Some (pad_row (format_header hrow) (input_file ! i)))
              # (if int i mod max_inserts = 0 then [Commit] else [])"
    using calls_after_Suc [OF assms, of _ input_file calls0 table col_types] by simp
  show "\<forall>i \<le> length input_file. \<exists>later.
          calls_after (length input_file) calls0 table col_types max_inserts input_file =
            calls_after i calls0 table col_types max_inserts input_file @ later"
    using calls_after_extends [OF assms, of _ "length input_file" input_file] by simp
  let ?c = "calls_after (length input_file) calls0 table col_types max_inserts input_file"
  show "\<forall>k < length (fst (load_pipeline calls0 table col_types max_inserts input_file)).
          (\<exists>sql row. fst (load_pipeline calls0 table col_types max_inserts input_file) ! k
                       = Execute sql (Some row)) \<longrightarrow>
          (\<exists>k'. k < k'
             \<and> k' < length (fst (load_pipeline calls0 table col_types max_inserts input_file))
             \<and> fst (load_pipeline calls0 table col_types max_inserts input_file) ! k' = Commit)"
  proof (intro allI impI)
    fix k
    assume k: "k < length (fst (load_pipeline calls0 table col_types max_inserts input_file))"
      and e: "\<exists>sql row. fst (load_pipeline calls0 table col_types max_inserts input_file) ! k
                       = Execute sql (Some row)"
    have "k \<noteq> length ?c"
    proof
      assume "k = length ?c"
      then have "fst (load_pipeline calls0 table col_types max_inserts input_file) ! k = Commit"
        by (simp add: fin)
      with e show False by auto
    qed
    with k have "k < length ?c" by (simp add: fin)
    then show "\<exists>k'. k < k'
             \<and> k' < length (fst (load_pipeline calls0 table col_types max_inserts input_file))
             \<and> fst (load_pipeline calls0 table col_types max_inserts input_file) ! k' = Commit"
      by (intro exI [of _ "length ?c"]) (simp add: fin)
  qed
qed

theorem load_commits_witness:
  "(2::int) \<noteq> 0
   \<and> load_pipeline [] ''t'' [''int''] 2 [[''a''], [''1''], [''2'']] =
       (calls_after 3 [] ''t'' [''int''] 2 [[''a''], [''1''], [''2'']] @ [Commit], None)
   \<and> calls_after 2 [] ''t'' [''int''] 2 [[''a''], [''1''], [''2'']] =
       calls_after 1 [] ''t'' [''int''] 2 [[''a''], [''1''], [''2'']]
       @ [Execute (get_insert ''t'' (format_header [''a''])) (Some [''1''])]
   \<and> calls_after 3 [] ''t'' [''int''] 2 [[''a''], [''1''], [''2'']] =
       calls_after 2 [] ''t'' [''int''] 2 [[''a''], [''1''], [''2'']]
       @ [Execute (get_insert ''t'' (format_header [''a''])) (Some [''2'']), Commit]"
proof -
  let ?f = "[[''a''], [''1''], [''2'']]"
  have n: "(2::int) \<noteq> 0" by simp
  note th = load_commits [OF n, of "[]" "''t''" "[''int'']" ?f]
  have a: "load_pipeline [] ''t'' [''int''] 2 ?f =
       (calls_after 3 [] ''t'' [''int''] 2 ?f @ [Commit], None)"
    using th [THEN conjunct1] by (simp add: numeral_3_eq_3)
  note steps = th [THEN conjunct2, THEN conjunct1, rule_format]
  have f1: "find (\<lambda>r. r \<noteq> []) (take (Suc 0) ?f) = Some [''a'']" by simp
  have f2: "find (\<lambda>r. r \<noteq> []) (take (Suc (Suc 0)) ?f) = Some [''a'']" by simp
  have l1: "Suc 0 < length ?f" by simp
  have l2: "Suc (Suc 0) < length ?f" by simp
  have p1: "pad_row (format_header [''a'']) [''1''] = [''1'']"
    by (simp add: pad_row_eq format_header_length)
  have p2: "pad_row (format_header [''a'']) [''2''] = [''2'']"
    by (simp add: pad_row_eq format_header_length)
  have b: "calls_after 2 [] ''t'' [''int''] 2 ?f =
       calls_after 1 [] ''t'' [''int''] 2 ?f
       @ [Execute (get_insert ''t'' (format_header [''a''])) (Some [''1''])]"
    using steps [OF l1 f1] p1 by (simp add: numeral_2_eq_2)
  have c: "calls_after 3 [] ''t'' [''int''] 2 ?f =
       calls_after 2 [] ''t'' [''int''] 2 ?f
       @ [Execute (get_insert ''t'' (format_header [''a''])) (Some [''2'']), Commit]"
    using steps [OF l2 f2] p2 by (simp add: numeral_2_eq_2 numeral_3_eq_3)
  show ?thesis using a b c by simp
qed

subsection \<open>Header Normalizer and Schema Generator\<close>

lemmas safe_col_eval = safe_col_def strip_chars_def lower_def lower_char_def is_word_def

text \<open>
  C2. The claim is that the normalized names are pairwise distinct for every header. The
  header \<open>a, a, a2\<close> refutes it: the second \<open>a\<close> becomes \<open>a2\<close>, and the third name
  is \<open>a2\<close> as well, at its first occurrence, so it gets no suffix.
\<close>

theorem format_header_duplicate:
  "format_header [''a'', ''a'', ''a2''] = [''`a`'', ''`a2`'', ''`a2`'']
   \<and> \<not> distinct (format_header [''a'', ''a'', ''a2''])"
proof -
  have a: "safe_col ''a'' = ''a''" by (simp add: safe_col_eval)
  have b: "safe_col ''a2'' = ''a2''" by (simp add: safe_col_eval)
  have c: "str_nat (Suc (Suc 0)) = ''2''" by (subst str_nat.simps) simp
  have "format_header [''a'', ''a'', ''a2''] = [''`a`'', ''`a2`'', ''`a2`'']"
    by (simp add: format_header_def a b c Let_def)
  then show ?thesis by simp
qed

lemma format_header_blank:
  "format_header ['''', '''', ''Id''] = [''``'', ''`2`'', ''`id`'']"
proof -
  have a: "safe_col '''' = ''''" by (simp add: safe_col_eval)
  have b: "safe_col ''Id'' = ''id''" by (simp add: safe_col_eval)
  have c: "str_nat (Suc (Suc 0)) = ''2''" by (subst str_nat.simps) simp
  show ?thesis by (simp add: format_header_def a b c Let_def)
qed

lemma get_schema_loop_clauses:
  "get_schema_loop schema_sql cols =
     schema_sql @ concat (map (\<lambda>(col_name, col_type). [nl] @ col_name @ '' '' @ col_type @ '','')
                              (filter (\<lambda>(col_name, col_type). col_name \<noteq> ''id'') cols))"
  by (induction cols arbitrary: schema_sql) auto

lemma get_schema_clauses:
  "get_schema table header col_types =
     ''CREATE TABLE IF NOT EXISTS `'' @ table @ ''` ('' @ [nl, nl] @ ''        ''
     @ concat (map (\<lambda>(col_name, col_type). [nl] @ col_name @ '' '' @ col_type @ '','')
                   (filter (\<lambda>(col_name, col_type). col_name \<noteq> ''id'') (zip header col_types)))
     @ [nl] @ ''PRIMARY KEY (id)'' @ [nl] @ ''        ) DEFAULT CHARSET=utf8;''"
  by (simp add: get_schema_def get_schema_loop_clauses)

text \<open>
  C1. The claim is that for the CSV header \<open>id, name\<close> with types \<open>int\<close> and
  \<open>varchar(255)\<close> the statement has the single column clause of \<open>name\<close>. The header
  that \<^verbatim>\<open>main\<close> passes to \<^verbatim>\<open>get_schema\<close> is the normalized one, whose names are wrapped
  in backquotes, so the comparison with \<open>id\<close> never holds and the statement has a clause
  for \<open>id\<close> too.
\<close>

theorem get_schema_id_name:
  "format_header [''id'', ''name''] = [''`id`'', ''`name`'']
   \<and> get_schema table (format_header [''id'', ''name'']) [''int'', ''varchar(255)''] =
       ''CREATE TABLE IF NOT EXISTS `'' @ table @ ''` ('' @ [nl, nl] @ ''        ''
       @ [nl] @ ''`id` int,'' @ [nl] @ ''`name` varchar(255),''
       @ [nl] @ ''PRIMARY KEY (id)'' @ [nl] @ ''        ) DEFAULT CHARSET=utf8;''"
proof -
  have a: "safe_col ''id'' = ''id''" by (simp add: safe_col_eval)
  have b: "safe_col ''name'' = ''name''" by (simp add: safe_col_eval)
  have h: "format_header [''id'', ''name''] = [''`id`'', ''`name`'']"
    by (simp add: format_header_def a b Let_def)
  show ?thesis unfolding h by (simp add: get_schema_def)
qed

subsection \<open>Column Type Aggregator\<close>

lemma classify_row_types:
  assumes "distinct h" "col_i + length row \<le> length h"
  shows "\<exists>t'. classify_row h t col_i row = Inr t'
     \<and> (\<forall>j < length h. t' (h ! j) =
          t (h ! j) @ (if col_i \<le> j \<and> j < col_i + length row
                       then [get_type (row ! (j - col_i))] else []))"
  using assms(2)
proof (induction row arbitrary: t col_i)
  case Nil
  show ?case by simp
next
  case (Cons s row)
  then have c: "col_i < length h" and n: "Suc col_i + length row \<le> length h" by simp_all
  let ?t1 = "t(h ! col_i := t (h ! col_i) @ [get_type s])"
  from Cons.IH [OF n, of ?t1] obtain t' where t':
    "classify_row h ?t1 (Suc col_i) row = Inr t'"
    "\<forall>j < length h. t' (h ! j) =
        ?t1 (h ! j) @ (if Suc col_i \<le> j \<and> j < Suc col_i + length row
                       then [get_type (row ! (j - Suc col_i))] else [])"
    by blast
  have "t' (h ! j) = t (h ! j) @ (if col_i \<le> j \<and> j < col_i + length (s # row)
                       then [get_type ((s # row) ! (j - col_i))] else [])"
    if j: "j < length h" for j
  proof (cases "j = col_i")
    case True
    with t'(2) j show ?thesis by simp
  next
    case False
    with assms(1) j c have "h ! j \<noteq> h ! col_i" by (simp add: nth_eq_iff_index_eq)
    with t'(2) j False show ?thesis
      by (cases "col_i < j") (auto simp: Suc_diff_Suc [symmetric] Suc_diff_le)
  qed
  with t'(1) c show ?case by (simp add: Let_def)
qed

lemma column_cells_Cons:
  "column_cells j (row # rows) = (if j < length row then [row ! j] else []) @ column_cells j rows"
  by (simp add: column_cells_def)

lemma sample_rows_types:
  assumes "distinct h" "row_i \<noteq> 0" "row_i \<le> max_rows"
    "\<forall>row \<in> set (take (Suc max_rows - row_i) rows). length row \<le> length h"
  shows "\<exists>t'. sample_rows max_rows (Some h) t row_i rows = Inr (Some h, t')
     \<and> (\<forall>j < length h. t' (h ! j) =
          t (h ! j) @ map get_type (column_cells j (take (Suc max_rows - row_i) rows)))"
  using assms(2-)
proof (induction rows arbitrary: t row_i)
  case Nil
  show ?case by (simp add: column_cells_def)
next
  case (Cons row rows)
  have w: "Suc max_rows - row_i = Suc (max_rows - row_i)" using Cons.prems(2) by simp
  from Cons.prems(3) have len: "0 + length row \<le> length h" by (simp add: w)
  from classify_row_types [OF assms(1) len, of t] obtain t1 where t1:
    "classify_row h t 0 row = Inr t1"
    "\<forall>j < length h. t1 (h ! j) = t (h ! j) @ (if j < length row then [get_type (row ! j)] else [])"
    by auto
  show ?case
  proof (cases "row_i = max_rows")
    case True
    with t1 Cons.prems(1) show ?thesis by (simp add: column_cells_def)
  next
    case False
    with Cons.prems(2) have le: "Suc row_i \<le> max_rows" by simp
    have w': "max_rows - row_i = Suc max_rows - Suc row_i" by simp
    from Cons.prems(3)
    have "\<forall>r \<in> set (take (Suc max_rows - Suc row_i) rows). length r \<le> length h"
      by (simp add: w)
    from Cons.IH [OF _ le this, of t1] obtain t' where t':
      "sample_rows max_rows (Some h) t1 (Suc row_i) rows = Inr (Some h, t')"
      "\<forall>j < length h. t' (h ! j) =
          t1 (h ! j) @ map get_type (column_cells j (take (Suc max_rows - Suc row_i) rows))"
      by auto
    have "sample_rows max_rows (Some h) t row_i (row # rows) = Inr (Some h, t')"
      using t1(1) t'(1) False Cons.prems(1) by simp
    moreover have "\<forall>j < length h. t' (h ! j) =
          t (h ! j) @ map get_type (column_cells j (take (Suc max_rows - row_i) (row # rows)))"
      using t1(2) t'(2) by (simp add: w column_cells_Cons)
    ultimately show ?thesis by blast
  qed
qed

text \<open>
  Where the header names are pairwise distinct and no sampled record is longer than the
  header, the result has one type per header column, and the type at index \<open>j\<close> is the
  reduction of the types of the sampled cells at index \<open>j\<close>.
\<close>

lemma get_col_types_distinct:
  assumes "distinct hdr" "\<forall>row \<in> set (take max_rows data). length row \<le> length hdr"
  shows "get_col_types (hdr # data) max_rows =
     Inr (map (\<lambda>j. most_common (map get_type (column_cells j (take max_rows data)))
                      ''varchar(255)'')
              [0..<length hdr])"
proof (cases "max_rows = 0")
  case True
  have "map (\<lambda>col. most_common [] ''varchar(255)'') hdr
          = map (\<lambda>j. most_common [] ''varchar(255)'') [0..<length hdr]"
    by (simp add: map_replicate_const)
  with True show ?thesis by (simp add: get_col_types_def column_cells_def)
next
  case False
  then have le: "Suc 0 \<le> max_rows" by simp
  from assms(2)
  have "\<forall>row \<in> set (take (Suc max_rows - Suc 0) data). length row \<le> length hdr" by simp
  from sample_rows_types [OF assms(1) _ le this, of "\<lambda>_. []"] obtain t' where t':
    "sample_rows max_rows (Some hdr) (\<lambda>_. []) (Suc 0) data = Inr (Some hdr, t')"
    "\<forall>j < length hdr. t' (hdr ! j) = map get_type (column_cells j (take max_rows data))"
    by auto
  have "map (\<lambda>col. most_common (t' col) ''varchar(255)'') hdr
          = map (\<lambda>j. most_common (t' (hdr ! j)) ''varchar(255)'') [0..<length hdr]"
    by (rule nth_equalityI) simp_all
  also have "\<dots> = map (\<lambda>j. most_common (map get_type (column_cells j (take max_rows data)))
                      ''varchar(255)'') [0..<length hdr]"
    using t'(2) by simp
  finally show ?thesis using t'(1) False by (simp add: get_col_types_def)
qed

text \<open>
  C3. The claim is that the type of the column at index \<open>j\<close> is computed from the cells at
  index \<open>j\<close> only, also when two columns have the same header name. The observed types are
  stored under the header name, so two columns named \<open>a\<close> share one list: with the cells
  \<open>1\<close> and \<open>99999999999\<close> both columns get \<open>bigint\<close>, where the cells of the first
  column alone give \<open>int\<close>.
\<close>

theorem get_col_types_shared_name:
  "get_col_types [[''a'', ''a''], [''1'', ''99999999999'']] 1000 = Inr [''bigint'', ''bigint'']
   \<and> most_common [get_type ''1''] ''varchar(255)'' = ''int''
   \<and> most_common [get_type ''99999999999''] ''varchar(255)'' = ''bigint''"
proof -
  have a: "get_type ''1'' = ''int''" by (simp add: get_type_def py_int_eval)
  have b: "get_type ''99999999999'' = ''bigint''" by (simp add: get_type_def py_int_eval)
  have "get_col_types [[''a'', ''a''], [''1'', ''99999999999'']] 1000
          = Inr [''bigint'', ''bigint'']"
    by (simp add: get_col_types_def a b most_common_def)
  then show ?thesis by (simp add: a b most_common_def)
qed

lemma classify_row_long:
  "col_i \<le> length header \<Longrightarrow> length header < col_i + length row \<Longrightarrow>
     classify_row header csv_types col_i row = Inl IndexError"
  by (induction row arbitrary: csv_types col_i) (auto simp: Let_def)

lemma classify_row_error:
  "classify_row header csv_types col_i row = Inl e \<Longrightarrow> e = IndexError"
  by (induction row arbitrary: csv_types col_i) (auto simp: Let_def split: if_splits)

lemma sample_rows_long:
  assumes "k < length rows" "row_i + k \<le> max_rows" "row_i \<noteq> 0"
    "length h < length (rows ! k)"
  shows "sample_rows max_rows (Some h) csv_types row_i rows = Inl IndexError"
  using assms
proof (induction rows arbitrary: k row_i csv_types)
  case Nil
  then show ?case by simp
next
  case (Cons row rows)
  show ?case
  proof (cases k)
    case 0
    with Cons.prems have "classify_row h csv_types 0 row = Inl IndexError"
      by (simp add: classify_row_long)
    with Cons.prems(3) show ?thesis by simp
  next
    case (Suc k')
    show ?thesis
    proof (cases "classify_row h csv_types 0 row")
      case (Inl e)
      with classify_row_error have "e = IndexError" by blast
      with Inl Cons.prems(3) show ?thesis by simp
    next
      case (Inr csv_types')
      have "sample_rows max_rows (Some h) csv_types' (Suc row_i) rows = Inl IndexError"
        using Cons.prems Suc by (intro Cons.IH [of k']) simp_all
      moreover have "row_i \<noteq> max_rows" using Cons.prems(2) Suc by simp
      ultimately show ?thesis using Inr Cons.prems(3) by simp
    qed
  qed
qed

lemma get_col_types_long:
  assumes "i < length data" "i < max_rows" "length hdr < length (data ! i)"
  shows "get_col_types (hdr # data) max_rows = Inl IndexError"
proof -
  have "sample_rows max_rows (Some hdr) (\<lambda>_. []) (Suc 0) data = Inl IndexError"
    using assms by (intro sample_rows_long [of i]) simp_all
  moreover have "0 \<noteq> max_rows" using assms(2) by simp
  ultimately show ?thesis by (simp add: get_col_types_def)
qed

text \<open>
  C9. If data record \<open>i\<close> lies in the sample window (\<open>i < max_rows\<close>, counting data
  records from 0) and has more fields than the header, \<^verbatim>\<open>get_col_types\<close> raises
  \<^verbatim>\<open>IndexError\<close>. In \<^verbatim>\<open>main\<close>, whose window is 1000, the run ends there: the only gateway
  calls made are the connection, \<^verbatim>\<open>CREATE DATABASE\<close> and the selection of the database.
\<close>

theorem get_col_types_long_row:
  assumes "i < length data" and "i < max_rows" and "length hdr < length (data ! i)"
  shows "get_col_types (hdr # data) max_rows = Inl IndexError
     \<and> (max_rows = 1000 \<longrightarrow>
          main (hdr # data) user password host table database max_inserts =
            ([Connect host user password,
              Execute (''CREATE DATABASE IF NOT EXISTS `'' @ database @ ''`;'') None,
              Select_db database],
             Some IndexError))"
proof (intro conjI impI)
  show "get_col_types (hdr # data) max_rows = Inl IndexError"
    by (rule get_col_types_long [OF assms])
next
  assume "max_rows = 1000"
  with get_col_types_long [OF assms]
  have "get_col_types (hdr # data) 1000 = Inl IndexError" by simp
  then show "main (hdr # data) user password host table database max_inserts =
            ([Connect host user password,
              Execute (''CREATE DATABASE IF NOT EXISTS `'' @ database @ ''`;'') None,
              Select_db database],
             Some IndexError)"
    by (simp add: main_def)
qed

theorem get_col_types_long_row_witness:
  "(0::nat) < length [[''1'', ''2'']] \<and> (0::nat) < 1000
   \<and> length [''a''] < length ([[''1'', ''2'']] ! 0)
   \<and> get_col_types [[''a''], [''1'', ''2'']] 1000 = Inl IndexError
   \<and> main [[''a''], [''1'', ''2'']] ''root'' '''' ''localhost'' ''t'' ''test'' 10000 =
       ([Connect ''localhost'' ''root'' '''',
         Execute ''CREATE DATABASE IF NOT EXISTS `test`;'' None,
         Select_db ''test''],
        Some IndexError)"
proof -
  have a: "(0::nat) < length [[''1'', ''2'']]" by simp
  have b: "(0::nat) < 1000" by simp
  have c: "length [''a''] < length ([[''1'', ''2'']] ! 0)" by simp
  show ?thesis
    using get_col_types_long_row [OF a b c, of "''root''" "''''" "''localhost''" "''t''"
        "''test''" 10000]
    by simp
qed

text \<open>
  C10. On a file with no record \<^verbatim>\<open>get_col_types\<close> raises the error of the unassigned
  variable \<^verbatim>\<open>header\<close>, and \<^verbatim>\<open>main\<close> ends there, having made no call about a table.
\<close>

theorem get_col_types_empty_file:
  "get_col_types [] max_rows = Inl UnboundLocalError
   \<and> main [] user password host table database max_inserts =
       ([Connect host user password,
         Execute (''CREATE DATABASE IF NOT EXISTS `'' @ database @ ''`;'') None,
         Select_db database],
        Some UnboundLocalError)"
  by (simp add: get_col_types_def main_def)

end
